theory Spec2Isabelle
  imports Complex_Main "HOL-Library.Sublist"
begin

section \<open>Strings as the chunking engine sees them\<close>

text \<open>
  The engine of \<^verbatim>\<open>app/parse.py\<close> works on Python \<^verbatim>\<open>str\<close> values. A string is modelled
  as a \<^typ>\<open>string\<close>, one \<^typ>\<open>char\<close> per code point, which covers the code points below 256;
  the character classes below are the ones Python uses on that range.
\<close>

abbreviation nl :: char where "nl \<equiv> CHR 0x0A"
abbreviation tab :: char where "tab \<equiv> CHR 0x09"
abbreviation pipe :: char where "pipe \<equiv> CHR ''|''"

text \<open>\<^verbatim>\<open>str.isspace\<close> on one character; the class \<^verbatim>\<open>\s\<close> of \<^verbatim>\<open>re\<close> is the same.\<close>

definition isspace :: "char \<Rightarrow> bool" where
  "isspace c = (let n = (of_char c :: nat)
                in (9 \<le> n \<and> n \<le> 13) \<or> (28 \<le> n \<and> n \<le> 32) \<or> n = 133 \<or> n = 160)"

text \<open>\<^verbatim>\<open>s.strip()\<close> and \<^verbatim>\<open>s.strip(chars)\<close>.\<close>

definition strip_with :: "(char \<Rightarrow> bool) \<Rightarrow> string \<Rightarrow> string" where
  "strip_with P s = rev (dropWhile P (rev (dropWhile P s)))"

definition strip :: "string \<Rightarrow> string" where
  "strip s = strip_with isspace s"

definition strip_chars :: "string \<Rightarrow> string \<Rightarrow> string" where
  "strip_chars chars s = strip_with (\<lambda>c. c \<in> set chars) s"

text \<open>Putting a character in front of the first piece of a split.\<close>

fun cons_first :: "char \<Rightarrow> string list \<Rightarrow> string list" where
  "cons_first c [] = [[c]]"
| "cons_first c (l # ls) = (c # l) # ls"

text \<open>\<^verbatim>\<open>s.split('\n')\<close>: the pieces between newlines, empty pieces kept.\<close>

fun split_lines :: "string \<Rightarrow> string list" where
  "split_lines [] = [[]]"
| "split_lines (c # cs) = (if c = nl then [] # split_lines cs else cons_first c (split_lines cs))"

text \<open>\<^verbatim>\<open>s.split('\n\n')\<close>: occurrences of the separator are found from the left and do
  not overlap.\<close>

fun split_paragraphs :: "string \<Rightarrow> string list" where
  "split_paragraphs (a # b # cs) =
     (if a = nl \<and> b = nl then [] # split_paragraphs cs
      else cons_first a (split_paragraphs (b # cs)))"
| "split_paragraphs cs = [cs]"

text \<open>\<^verbatim>\<open>re.split(r'[.!?]+', s)\<close>: every maximal run of terminators is one separator.\<close>

definition is_terminator :: "char \<Rightarrow> bool" where
  "is_terminator c = (c = CHR ''.'' \<or> c = CHR ''!'' \<or> c = CHR ''?'')"

function split_sentences :: "string \<Rightarrow> string list" where
  "split_sentences [] = [[]]"
| "split_sentences (c # cs) =
     (if is_terminator c then [] # split_sentences (dropWhile is_terminator cs)
      else cons_first c (split_sentences cs))"
  by pat_completeness auto
termination
  by (relation "measure length") (auto simp: le_imp_less_Suc length_dropWhile_le)

text \<open>\<^verbatim>\<open>sep.join(xs)\<close>.\<close>

fun join :: "string \<Rightarrow> string list \<Rightarrow> string" where
  "join sep [] = []"
| "join sep [x] = x"
| "join sep (x # y # ys) = x @ sep @ join sep (y # ys)"

text \<open>\<^verbatim>\<open>s.lower()\<close>, one character at a time.\<close>

definition lower_char :: "char \<Rightarrow> char" where
  "lower_char c = (let n = (of_char c :: nat)
                   in if (65 \<le> n \<and> n \<le> 90) \<or> (192 \<le> n \<and> n \<le> 222 \<and> n \<noteq> 215)
                      then char_of (n + 32) else c)"

definition lower :: "string \<Rightarrow> string" where
  "lower s = map lower_char s"

text \<open>\<^verbatim>\<open>sub in s\<close> on strings.\<close>

fun contains :: "string \<Rightarrow> string \<Rightarrow> bool" where
  "contains sub [] = (sub = [])"
| "contains sub (c # cs) = (prefix sub (c # cs) \<or> contains sub cs)"

text \<open>\<^verbatim>\<open>str(n)\<close> for a non-negative integer.\<close>

definition digit_char :: "nat \<Rightarrow> char" where
  "digit_char d = char_of (48 + d)"

fun str_nat :: "nat \<Rightarrow> string" where
  "str_nat n = (if n < 10 then [digit_char n] else str_nat (n div 10) @ [digit_char (n mod 10)])"

declare str_nat.simps [simp del]

datatype error = ValueError

text \<open>\<^verbatim>\<open>range(start, stop, step)\<close> as a list; a zero step raises.\<close>

function range_list :: "int \<Rightarrow> int \<Rightarrow> int \<Rightarrow> int list" where
  "range_list i stop step =
     (if 0 < step \<and> i < stop then i # range_list (i + step) stop step
      else if step < 0 \<and> stop < i then i # range_list (i + step) stop step
      else [])"
  by pat_completeness auto
termination
  by (relation "measure (\<lambda>(i, stop, step). nat (if 0 < step then stop - i else i - stop))") auto

declare range_list.simps [simp del]

definition py_range :: "int \<Rightarrow> int \<Rightarrow> int \<Rightarrow> error + int list" where
  "py_range start stop step = (if step = 0 then Inl ValueError else Inr (range_list start stop step))"

section \<open>Table Chunker\<close>

text \<open>The search for the header line among the first three non-blank lines: the
  \<^verbatim>\<open>for ... else\<close> loop of \<^verbatim>\<open>chunk_table_content\<close>, giving the line and its index.\<close>

fun first_separator_line :: "nat \<Rightarrow> string list \<Rightarrow> (nat \<times> string) option" where
  "first_separator_line i [] = None"
| "first_separator_line i (line # rest) =
     (if pipe \<in> set line \<or> tab \<in> set line then Some (i, line)
      else first_separator_line (Suc i) rest)"

definition identify_header :: "string list \<Rightarrow> string \<times> nat" where
  "identify_header non_empty_lines =
     (case first_separator_line 0 (take 3 non_empty_lines) of
        Some (i, line) \<Rightarrow> (line, i + 1)
      | None \<Rightarrow> ([], 0))"

definition non_empty_lines_of :: "string \<Rightarrow> string list" where
  "non_empty_lines_of content = filter (\<lambda>line. strip line \<noteq> []) (split_lines content)"

definition table_chunk_at :: "string list \<Rightarrow> string \<Rightarrow> nat \<Rightarrow> int \<Rightarrow> int \<Rightarrow> string" where
  "table_chunk_at non_empty_lines header_line start_idx max_rows i =
     (let chunk_lines = take (nat max_rows) (drop (nat i) non_empty_lines)
      in if header_line \<noteq> [] \<and> int start_idx < i
         then header_line @ [nl] @ join [nl] chunk_lines
         else join [nl] chunk_lines)"

definition chunk_table_content :: "string \<Rightarrow> int \<Rightarrow> error + string list" where
  "chunk_table_content content max_rows =
     (let non_empty_lines = non_empty_lines_of content
      in if int (length non_empty_lines) \<le> max_rows then Inr [content]
         else
           let (header_line, start_idx) = identify_header non_empty_lines
           in case py_range (int start_idx) (int (length non_empty_lines)) max_rows of
                Inl e \<Rightarrow> Inl e
              | Inr idxs \<Rightarrow>
                  Inr (map (table_chunk_at non_empty_lines header_line start_idx max_rows) idxs))"

section \<open>Content-Type Classifier\<close>

text \<open>\<^verbatim>\<open>max(xs, key=key)\<close> on a non-empty sequence: the first element whose key is
  largest.\<close>

fun max_key_from :: "('a \<Rightarrow> nat) \<Rightarrow> 'a \<Rightarrow> 'a list \<Rightarrow> 'a" where
  "max_key_from key best [] = best"
| "max_key_from key best (x # xs) =
     (if key best < key x then max_key_from key x xs else max_key_from key best xs)"

definition column_counts_of :: "string list \<Rightarrow> nat list" where
  "column_counts_of lines =
     concat (map (\<lambda>line. if pipe \<in> set line then [count_list line pipe]
                          else if tab \<in> set line then [count_list line tab]
                          else []) lines)"

text \<open>The set \<^verbatim>\<open>set(column_counts)\<close> is walked in increasing order here; Python walks it
  in hash order. Only the number of occurrences of the chosen value is used, and that
  number is the same for every order (lemma \<open>most_common_any_order\<close> below).\<close>

definition most_common_count :: "nat list \<Rightarrow> nat" where
  "most_common_count column_counts =
     (case sort (remdups column_counts) of
        [] \<Rightarrow> 0
      | x # xs \<Rightarrow> max_key_from (count_list column_counts) x xs)"

definition table_keywords :: "string list" where
  "table_keywords = [''table'', ''column'', ''row'', ''premium'', ''coverage'', ''benefit'', ''amount'']"

text \<open>The ratios are Python floats compared with float literals. A quotient of two
  integers below \<open>2^53\<close> is the float nearest to the exact quotient, and a literal is the
  float nearest to its decimal, so for contents of fewer than \<open>2^50\<close> lines each comparison
  \<^verbatim>\<open>k / n > 0.4\<close> agrees with the exact one; the model compares exact rationals.\<close>

definition is_tabular_section :: "string \<Rightarrow> bool" where
  "is_tabular_section content =
     (let lines = split_lines content
      in if length lines < 2 then False
         else
           let pipe_lines = length (filter (\<lambda>line. pipe \<in> set line \<and> 2 \<le> count_list line pipe) lines);
               pipe_ratio = (of_nat pipe_lines / of_nat (length lines) :: rat);
               tab_lines = length (filter (\<lambda>line. tab \<in> set line \<and> 1 \<le> count_list line tab) lines);
               tab_ratio = (of_nat tab_lines / of_nat (length lines) :: rat);
               column_counts = column_counts_of lines;
               consistency =
                 (if column_counts \<noteq> []
                  then of_nat (count_list column_counts (most_common_count column_counts))
                         / of_nat (length column_counts)
                  else (0 :: rat));
               keyword_present =
                 list_ex (\<lambda>keyword. contains (lower keyword) (lower content)) table_keywords
           in 4 / 10 < pipe_ratio \<or> 3 / 10 < tab_ratio
              \<or> (6 / 10 < consistency \<and> 1 < length column_counts)
              \<or> (keyword_present \<and> (2 / 10 < pipe_ratio \<or> 2 / 10 < tab_ratio)))"

section \<open>Header shapes\<close>

text \<open>
  The header patterns of \<^verbatim>\<open>split_by_headers\<close> are regular expressions without
  back-references, each of the form \<^verbatim>\<open>^(...)$\<close>, tried with \<^verbatim>\<open>re.match\<close> on a line that
  was cut at newlines and stripped. Such a line holds no newline, so \<^verbatim>\<open>$\<close> can only
  match at its end: the pattern matches exactly when the whole line is in the language
  of the expression between the anchors, and group 1 is the whole line. Membership is
  decided with derivatives.
\<close>

datatype rx =
    Never
  | Eps
  | Cls "char \<Rightarrow> bool"
  | Seq rx rx
  | Alt rx rx
  | Opt rx
  | Star rx

fun nullable :: "rx \<Rightarrow> bool" where
  "nullable Never = False"
| "nullable Eps = True"
| "nullable (Cls P) = False"
| "nullable (Seq r s) = (nullable r \<and> nullable s)"
| "nullable (Alt r s) = (nullable r \<or> nullable s)"
| "nullable (Opt r) = True"
| "nullable (Star r) = True"

fun deriv :: "char \<Rightarrow> rx \<Rightarrow> rx" where
  "deriv c Never = Never"
| "deriv c Eps = Never"
| "deriv c (Cls P) = (if P c then Eps else Never)"
| "deriv c (Seq r s) =
     (if nullable r then Alt (Seq (deriv c r) s) (deriv c s) else Seq (deriv c r) s)"
| "deriv c (Alt r s) = Alt (deriv c r) (deriv c s)"
| "deriv c (Opt r) = deriv c r"
| "deriv c (Star r) = Seq (deriv c r) (Star r)"

definition full_match :: "rx \<Rightarrow> string \<Rightarrow> bool" where
  "full_match r s = nullable (foldl (\<lambda>r c. deriv c r) r s)"

definition chr :: "char \<Rightarrow> rx" where
  "chr a = Cls (\<lambda>c. c = a)"

definition plus :: "rx \<Rightarrow> rx" where
  "plus r = Seq r (Star r)"

fun times :: "nat \<Rightarrow> rx \<Rightarrow> rx" where
  "times 0 r = Eps"
| "times (Suc n) r = Seq r (times n r)"

definition at_least :: "nat \<Rightarrow> rx \<Rightarrow> rx" where
  "at_least n r = Seq (times n r) (Star r)"

text \<open>The classes \<^verbatim>\<open>.\<close>, \<^verbatim>\<open>\d\<close>, \<^verbatim>\<open>[A-Z]\<close>, \<^verbatim>\<open>[a-z]\<close> and \<^verbatim>\<open>\w\<close>.\<close>

definition any_char :: "char \<Rightarrow> bool" where
  "any_char c = (c \<noteq> nl)"

definition is_digit :: "char \<Rightarrow> bool" where
  "is_digit c = (let n = (of_char c :: nat) in 48 \<le> n \<and> n \<le> 57)"

definition is_AZ :: "char \<Rightarrow> bool" where
  "is_AZ c = (let n = (of_char c :: nat) in 65 \<le> n \<and> n \<le> 90)"

definition is_az :: "char \<Rightarrow> bool" where
  "is_az c = (let n = (of_char c :: nat) in 97 \<le> n \<and> n \<le> 122)"

definition is_word :: "char \<Rightarrow> bool" where
  "is_word c =
     (let n = (of_char c :: nat)
      in is_digit c \<or> is_AZ c \<or> is_az c \<or> n = 95
         \<or> n = 170 \<or> n = 178 \<or> n = 179 \<or> n = 181 \<or> n = 185 \<or> n = 186
         \<or> (188 \<le> n \<and> n \<le> 190) \<or> (192 \<le> n \<and> n \<le> 214)
         \<or> (216 \<le> n \<and> n \<le> 246) \<or> 248 \<le> n)"

text \<open>The six patterns of \<^verbatim>\<open>header_patterns\<close>, in the order of the source:
  \<^verbatim>\<open>^(#{1,6}\s+.+)$\<close>, \<^verbatim>\<open>^(\d+\.[\d\.]*\s+.+)$\<close>, \<^verbatim>\<open>^([A-Z][A-Z\s]{5,}:?)$\<close>,
  \<^verbatim>\<open>^([A-Z][a-z][\w\s]{3,}:)$\<close>, \<^verbatim>\<open>^(\*\*[^*]+\*\*)$\<close> and \<^verbatim>\<open>^(__[^_]+__)$\<close>.\<close>

definition markdown_header :: rx where
  "markdown_header =
     Seq (chr CHR ''#'') (Seq (times 5 (Opt (chr CHR ''#'')))
       (Seq (plus (Cls isspace)) (plus (Cls any_char))))"

definition numbered_header :: rx where
  "numbered_header =
     Seq (plus (Cls is_digit)) (Seq (chr CHR ''.'')
       (Seq (Star (Cls (\<lambda>c. is_digit c \<or> c = CHR ''.'')))
         (Seq (plus (Cls isspace)) (plus (Cls any_char)))))"

definition caps_header :: rx where
  "caps_header =
     Seq (Cls is_AZ) (Seq (at_least 5 (Cls (\<lambda>c. is_AZ c \<or> isspace c)))
       (Opt (chr CHR '':'')))"

definition title_colon_header :: rx where
  "title_colon_header =
     Seq (Cls is_AZ) (Seq (Cls is_az)
       (Seq (at_least 3 (Cls (\<lambda>c. is_word c \<or> isspace c))) (chr CHR '':'')))"

definition bold_star_header :: rx where
  "bold_star_header =
     Seq (chr CHR ''*'') (Seq (chr CHR ''*'')
       (Seq (plus (Cls (\<lambda>c. c \<noteq> CHR ''*''))) (Seq (chr CHR ''*'') (chr CHR ''*''))))"

definition bold_underscore_header :: rx where
  "bold_underscore_header =
     Seq (chr CHR ''_'') (Seq (chr CHR ''_'')
       (Seq (plus (Cls (\<lambda>c. c \<noteq> CHR ''_''))) (Seq (chr CHR ''_'') (chr CHR ''_''))))"

definition header_patterns :: "rx list" where
  "header_patterns =
     [markdown_header, numbered_header, caps_header, title_colon_header,
      bold_star_header, bold_underscore_header]"

definition is_header :: "string \<Rightarrow> bool" where
  "is_header line = list_ex (\<lambda>pattern. full_match pattern line) header_patterns"

section \<open>Section Splitter\<close>

text \<open>A section: the keys \<^verbatim>\<open>title\<close> and \<^verbatim>\<open>content\<close> of the source are the fields
  \<open>section_title\<close> and \<open>section_content\<close>.\<close>

record doc_section =
  section_title :: string
  section_content :: string

text \<open>The loop over the lines: the state is the list of sealed sections and the
  current section.\<close>

fun scan_lines :: "string list \<Rightarrow> doc_section list \<times> doc_section \<Rightarrow> doc_section list \<times> doc_section" where
  "scan_lines [] st = st"
| "scan_lines (raw # rest) (sections, current_section) =
     (let line = strip raw
      in if line = []
         then scan_lines rest (sections, current_section\<lparr>section_content := section_content current_section @ [nl]\<rparr>)
         else if is_header line
         then scan_lines rest
                (if strip (section_content current_section) \<noteq> [] then sections @ [current_section]
                 else sections,
                 \<lparr>section_title = strip_chars ''# *_:'' line, section_content = []\<rparr>)
         else scan_lines rest
                (sections, current_section\<lparr>section_content := section_content current_section @ line @ [nl]\<rparr>))"

definition split_by_headers :: "string \<Rightarrow> doc_section list" where
  "split_by_headers text =
     (let (sealed, current_section) =
            scan_lines (split_lines text) ([], \<lparr>section_title = ''Introduction'', section_content = []\<rparr>);
          sections = (if strip (section_content current_section) \<noteq> [] then sealed @ [current_section]
                      else sealed)
      in if sections = [] then [\<lparr>section_title = ''Document Content'', section_content = text\<rparr>]
         else sections)"

section \<open>Prose Chunker\<close>

text \<open>The two packing loops of \<^verbatim>\<open>chunk_text_content\<close>; the state is the list of chunks
  and the current chunk.\<close>

fun pack_sentences :: "int \<Rightarrow> string list \<Rightarrow> string list \<times> string \<Rightarrow> string list \<times> string" where
  "pack_sentences max_chars [] st = st"
| "pack_sentences max_chars (raw # rest) (chunks, current_chunk) =
     (let sentence = strip raw
      in if sentence = [] then pack_sentences max_chars rest (chunks, current_chunk)
         else if max_chars < int (length current_chunk) + int (length sentence)
         then pack_sentences max_chars rest
                (if current_chunk \<noteq> [] then chunks @ [strip current_chunk] else chunks, sentence)
         else pack_sentences max_chars rest
                (chunks, if current_chunk \<noteq> [] then current_chunk @ '' '' @ sentence else sentence))"

fun pack_paragraphs :: "int \<Rightarrow> string list \<Rightarrow> string list \<times> string \<Rightarrow> string list \<times> string" where
  "pack_paragraphs max_chars [] st = st"
| "pack_paragraphs max_chars (paragraph # rest) (chunks, current_chunk) =
     (if max_chars < int (length paragraph)
      then pack_paragraphs max_chars rest
             (pack_sentences max_chars (split_sentences paragraph) (chunks, current_chunk))
      else if max_chars < int (length current_chunk) + int (length paragraph)
      then pack_paragraphs max_chars rest
             (if current_chunk \<noteq> [] then chunks @ [strip current_chunk] else chunks, paragraph)
      else pack_paragraphs max_chars rest
             (chunks, if current_chunk \<noteq> [] then current_chunk @ [nl, nl] @ paragraph
                      else paragraph))"

definition chunk_text_content :: "string \<Rightarrow> int \<Rightarrow> string list" where
  "chunk_text_content content max_chars =
     (if int (length content) \<le> max_chars then [content]
      else
        let (chunks, current_chunk) =
              pack_paragraphs max_chars (split_paragraphs content) ([], [])
        in if current_chunk \<noteq> [] then chunks @ [strip current_chunk] else chunks)"

section \<open>Structure Analyzer\<close>

text \<open>\<^verbatim>\<open>s.split()\<close>: the maximal runs of characters that are not whitespace.\<close>

fun split_whitespace :: "string \<Rightarrow> string list" where
  "split_whitespace [] = []"
| "split_whitespace (c # cs) =
     (if isspace c then split_whitespace cs
      else (case cs of
              [] \<Rightarrow> [[c]]
            | d # _ \<Rightarrow> if isspace d then [c] # split_whitespace cs
                       else cons_first c (split_whitespace cs)))"

record text_info =
  paragraph_count :: nat
  sentence_count :: nat
  word_count :: nat

record table_info =
  estimated_columns :: nat
  row_count :: nat
  has_header :: bool

definition analyze_text_structure :: "string \<Rightarrow> text_info" where
  "analyze_text_structure s =
     \<lparr>paragraph_count = length (filter (\<lambda>p. strip p \<noteq> []) (split_paragraphs s)),
      sentence_count = length (filter (\<lambda>t. strip t \<noteq> []) (split_sentences s)),
      word_count = length (split_whitespace s)\<rparr>"

text \<open>\<^verbatim>\<open>line.count('|') or line.count('\t')\<close>.\<close>

definition separator_cols :: "string \<Rightarrow> nat" where
  "separator_cols line =
     (if count_list line pipe \<noteq> 0 then count_list line pipe else count_list line tab)"

definition analyze_table_structure :: "string \<Rightarrow> table_info" where
  "analyze_table_structure table_text =
     (let non_empty_lines = non_empty_lines_of table_text;
          column_counts =
            concat (map (\<lambda>line. if pipe \<in> set line then [count_list line pipe + 1]
                                 else if tab \<in> set line then [count_list line tab + 1]
                                 else []) non_empty_lines)
      in \<lparr>estimated_columns = (if column_counts \<noteq> [] then fold max column_counts 0 else 1),
          row_count = length non_empty_lines,
          has_header =
            (case non_empty_lines of
               first # second # _ \<Rightarrow>
                 separator_cols first = separator_cols second \<and> 0 < separator_cols first
             | _ \<Rightarrow> False)\<rparr>)"

section \<open>Chunk Assembler\<close>

text \<open>
  A chunk record. The fields \<^verbatim>\<open>title\<close>, \<^verbatim>\<open>text\<close> and \<^verbatim>\<open>type\<close> of the source are
  \<open>chunk_title\<close>, \<open>chunk_text\<close> and \<open>chunk_type\<close> here; \<open>structure_info\<close> holds the
  entry \<^verbatim>\<open>text_info\<close> or \<^verbatim>\<open>table_info\<close>, whichever the chunk has.
\<close>

datatype chunk_kind = Text_chunk | Table_chunk

datatype chunk_structure = Text_structure text_info | Table_structure table_info

record chunk =
  document_id :: string
  document_name :: string
  file_path :: string
  chunk_title :: string
  page_number :: nat
  section_index :: nat
  chunk_id :: string
  created_at :: int
  chunk_text :: string
  chunk_type :: chunk_kind
  structure_info :: chunk_structure

text \<open>
  The document identity comes from the file name, an MD5 digest and the clock, and
  \<^verbatim>\<open>created_at\<close> from the clock: they are inputs of the model. \<open>doc\<close> is the triple of
  document id, document name and file path; \<open>clock p s\<close> is the time read when section
  \<open>s\<close> of the page with index \<open>p\<close> is reached.
\<close>

definition chunk_id_of :: "string \<Rightarrow> nat \<Rightarrow> nat \<Rightarrow> char \<Rightarrow> nat \<Rightarrow> string" where
  "chunk_id_of doc_id page_num section_idx kind chunk_idx =
     doc_id @ ''_p'' @ str_nat page_num @ ''_s'' @ str_nat section_idx @ ''_'' @ [kind]
       @ str_nat chunk_idx"

definition section_chunks ::
  "string \<times> string \<times> string \<Rightarrow> int \<Rightarrow> nat \<Rightarrow> nat \<Rightarrow> doc_section \<Rightarrow> error + chunk list" where
  "section_chunks doc now page_num section_idx sec =
     (let (doc_id, doc_name, path) = doc
      in if is_tabular_section (section_content sec)
         then (case chunk_table_content (section_content sec) 10 of
                 Inl e \<Rightarrow> Inl e
               | Inr table_chunks \<Rightarrow>
                   Inr (map (\<lambda>(chunk_idx, table_chunk).
                          \<lparr>document_id = doc_id, document_name = doc_name, file_path = path,
                           chunk_title = section_title sec, page_number = page_num,
                           section_index = section_idx,
                           chunk_id = chunk_id_of doc_id page_num section_idx CHR ''t'' chunk_idx,
                           created_at = now, chunk_text = table_chunk,
                           chunk_type = Table_chunk,
                           structure_info = Table_structure (analyze_table_structure table_chunk)\<rparr>)
                        (enumerate 0 table_chunks)))
         else Inr (map (\<lambda>(chunk_idx, text_chunk).
                     \<lparr>document_id = doc_id, document_name = doc_name, file_path = path,
                      chunk_title = section_title sec, page_number = page_num,
                      section_index = section_idx,
                      chunk_id = chunk_id_of doc_id page_num section_idx CHR ''c'' chunk_idx,
                      created_at = now, chunk_text = text_chunk,
                      chunk_type = Text_chunk,
                      structure_info = Text_structure (analyze_text_structure text_chunk)\<rparr>)
                   (enumerate 0 (chunk_text_content (section_content sec) 1000))))"

text \<open>A loop that extends the list of chunks and stops at the first error.\<close>

fun collect :: "('a \<Rightarrow> error + 'b list) \<Rightarrow> 'a list \<Rightarrow> error + 'b list" where
  "collect f [] = Inr []"
| "collect f (x # xs) =
     (case f x of
        Inl e \<Rightarrow> Inl e
      | Inr ys \<Rightarrow> (case collect f xs of Inl e \<Rightarrow> Inl e | Inr zs \<Rightarrow> Inr (ys @ zs)))"

definition page_chunks ::
  "string \<times> string \<times> string \<Rightarrow> (nat \<Rightarrow> nat \<Rightarrow> int) \<Rightarrow> nat \<Rightarrow> string \<Rightarrow> error + chunk list" where
  "page_chunks doc clock doc_idx page_text =
     (let page_num = doc_idx + 1
      in collect (\<lambda>(section_idx, sec).
                    section_chunks doc (clock doc_idx section_idx) page_num section_idx sec)
           (enumerate 0 (split_by_headers page_text)))"

definition chunk_document ::
  "string \<times> string \<times> string \<Rightarrow> (nat \<Rightarrow> nat \<Rightarrow> int) \<Rightarrow> string list \<Rightarrow> error + chunk list" where
  "chunk_document doc clock documents =
     collect (\<lambda>(doc_idx, page_text). page_chunks doc clock doc_idx page_text)
       (enumerate 0 documents)"

section \<open>The classifier as the specification words it\<close>

text \<open>
  The quantities of the specification's section 4.2, written from its words and not
  from the code, over a list of lines that is left open: the ratio of lines with at
  least two pipes, the ratio of lines with a tab, the separator counts of the lines that
  hold a pipe or a tab (the pipe count, or the tab count if the line has no pipe), the
  share of the most frequent count, and the keyword test.
\<close>

definition ratio :: "nat \<Rightarrow> nat \<Rightarrow> rat" where
  "ratio k n = (if n = 0 then 0 else of_nat k / of_nat n)"

definition pipe_ratio_of :: "string list \<Rightarrow> rat" where
  "pipe_ratio_of lines = ratio (length (filter (\<lambda>line. 2 \<le> count_list line pipe) lines)) (length lines)"

definition tab_ratio_of :: "string list \<Rightarrow> rat" where
  "tab_ratio_of lines = ratio (length (filter (\<lambda>line. 1 \<le> count_list line tab) lines)) (length lines)"

definition separator_counts :: "string list \<Rightarrow> nat list" where
  "separator_counts lines =
     map (\<lambda>line. if count_list line pipe = 0 then count_list line tab else count_list line pipe)
       (filter (\<lambda>line. pipe \<in> set line \<or> tab \<in> set line) lines)"

definition consistency_of :: "nat list \<Rightarrow> rat" where
  "consistency_of counts =
     (if counts = [] then 0
      else ratio (Max (set (map (count_list counts) counts))) (length counts))"

definition keyword_occurs :: "string \<Rightarrow> bool" where
  "keyword_occurs content = (\<exists>keyword\<in>set table_keywords. sublist keyword (lower content))"

text \<open>The decision as claim C2 states it: every quantity over the non-blank lines, and
  the third alternative asking for more than one distinct count value.\<close>

definition classifier_claimed :: "string \<Rightarrow> bool" where
  "classifier_claimed content =
     (let lines = non_empty_lines_of content;
          counts = separator_counts lines
      in 4 / 10 < pipe_ratio_of lines \<or> 3 / 10 < tab_ratio_of lines
         \<or> (6 / 10 < consistency_of counts \<and> 1 < card (set counts))
         \<or> (keyword_occurs content \<and> (2 / 10 < pipe_ratio_of lines \<or> 2 / 10 < tab_ratio_of lines)))"

text \<open>The decision as amended: the content must split into at least two lines, every
  quantity is taken over all lines of the content, blank ones included, and the third
  alternative asks for more than one recorded count.\<close>

definition classifier_amended :: "string \<Rightarrow> bool" where
  "classifier_amended content =
     (let lines = split_lines content;
          counts = separator_counts lines
      in 2 \<le> length lines
         \<and> (4 / 10 < pipe_ratio_of lines \<or> 3 / 10 < tab_ratio_of lines
            \<or> (6 / 10 < consistency_of counts \<and> 1 < length counts)
            \<or> (keyword_occurs content \<and> (2 / 10 < pipe_ratio_of lines \<or> 2 / 10 < tab_ratio_of lines))))"

section \<open>Notions used in the statements and proofs\<close>


text \<open>A content is closed when it is empty or ends with a newline; the sealed sections
  of the splitter are closed and not blank; \<open>recorded\<close> lists the non-blank lines of
  the contents of a list of sections.\<close>

definition closed :: "string \<Rightarrow> bool" where
  "closed c = (c = [] \<or> last c = nl)"

definition sealed_ok :: "doc_section list \<Rightarrow> bool" where
  "sealed_ok secs = (\<forall>s\<in>set secs. closed (section_content s) \<and> strip (section_content s) \<noteq> [])"

definition recorded :: "doc_section list \<Rightarrow> string list" where
  "recorded secs = concat (map (\<lambda>s. non_empty_lines_of (section_content s)) secs)"

text \<open>Reading a decimal string back, the letter that stands for a chunk type in a
  chunk id, the type of the chunks of a section, and the chunks that a section and a
  page contribute to the result of the assembler.\<close>

definition nat_of_digits :: "string \<Rightarrow> nat" where
  "nat_of_digits s = foldl (\<lambda>a c. 10 * a + (of_char c - 48)) 0 s"

definition kind_char :: "chunk_kind \<Rightarrow> char" where
  "kind_char k = (case k of Table_chunk \<Rightarrow> CHR ''t'' | Text_chunk \<Rightarrow> CHR ''c'')"

definition section_kind :: "doc_section \<Rightarrow> chunk_kind" where
  "section_kind sec = (if is_tabular_section (section_content sec) then Table_chunk else Text_chunk)"

definition chunks_of_section ::
  "string \<times> string \<times> string \<Rightarrow> (nat \<Rightarrow> nat \<Rightarrow> int) \<Rightarrow> nat \<Rightarrow> nat \<Rightarrow> doc_section \<Rightarrow> chunk list" where
  "chunks_of_section doc clock p j sec = projr (section_chunks doc (clock p j) (p + 1) j sec)"

definition chunks_of_page ::
  "string \<times> string \<times> string \<Rightarrow> (nat \<Rightarrow> nat \<Rightarrow> int) \<Rightarrow> nat \<Rightarrow> string \<Rightarrow> chunk list" where
  "chunks_of_page doc clock p page_text =
     concat (map (\<lambda>(j, sec). chunks_of_section doc clock p j sec)
       (enumerate 0 (split_by_headers page_text)))"

text \<open>The texts of the chunks of a section.\<close>

definition section_texts :: "doc_section \<Rightarrow> string list" where
  "section_texts sec =
     (if is_tabular_section (section_content sec)
      then projr (chunk_table_content (section_content sec) 10)
      else chunk_text_content (section_content sec) 1000)"

section \<open>Concrete inputs\<close>

text \<open>A pipe-delimited table: a header line followed by \<open>n\<close> data rows.\<close>

definition table_row :: "nat \<Rightarrow> string" where
  "table_row n = ''r'' @ str_nat n @ ''|x|y''"

definition table_of :: "string \<Rightarrow> nat \<Rightarrow> string" where
  "table_of header n = join [nl] (header # map table_row [1..<Suc n])"

text \<open>Two paragraphs of \<open>n\<close> characters each, separated by a blank line.\<close>

definition two_paragraphs :: "nat \<Rightarrow> string" where
  "two_paragraphs n = replicate n CHR ''a'' @ [nl, nl] @ replicate n CHR ''b''"

text \<open>Seven lines, two of them with one pipe each.\<close>

definition seven_lines :: string where
  "seven_lines = join [nl] [''a|b'', ''c|d'', ''x'', ''y'', ''z'', ''w'', ''v'']"

text \<open>A header line followed by an indented line, and a page of two header lines.\<close>

definition title_hello :: string where
  "title_hello = ''# Title'' @ [nl] @ ''  Hello  ''"


text \<open>A clock that always reads zero.\<close>

definition epoch_clock :: "nat \<Rightarrow> nat \<Rightarrow> int" where
  "epoch_clock p s = 0"

section \<open>Properties of the string operations\<close>

lemma split_lines_no_newline: "nl \<notin> set s \<Longrightarrow> split_lines s = [s]"
  by (induction s) auto

lemma split_lines_not_Nil [simp]: "split_lines s \<noteq> []"
  by (induction s) (auto split: list.splits elim: cons_first.elims)

lemma split_lines_no_nl: "l \<in> set (split_lines s) \<Longrightarrow> nl \<notin> set l"
proof (induction s arbitrary: l)
  case Nil
  then show ?case by simp
next
  case (Cons c cs)
  show ?case
  proof (cases "c = nl")
    case True
    with Cons show ?thesis by auto
  next
    case False
    obtain x xs where sp: "split_lines cs = x # xs"
      by (cases "split_lines cs") auto
    with Cons False show ?thesis by auto
  qed
qed

lemma split_lines_append_nl:
  "nl \<notin> set h \<Longrightarrow> split_lines (h @ nl # rest) = h # split_lines rest"
  by (induction h) auto

lemma range_list_nth:
  "0 < step \<Longrightarrow> k < length (range_list i stop step) \<Longrightarrow>
     range_list i stop step ! k = i + int k * step"
proof (induction k arbitrary: i)
  case 0
  then show ?case
    by (subst (asm) range_list.simps, subst range_list.simps) (auto split: if_splits)
next
  case (Suc k)
  from Suc.prems have lt: "i < stop"
    by (subst (asm) range_list.simps) (auto split: if_splits)
  with Suc.prems have eq: "range_list i stop step = i # range_list (i + step) stop step"
    by (subst range_list.simps) simp
  with Suc.prems have "k < length (range_list (i + step) stop step)" by simp
  from Suc.IH [OF Suc.prems(1) this] eq show ?case by (simp add: algebra_simps)
qed

lemma range_list_neg_empty: "step < 0 \<Longrightarrow> i \<le> stop \<Longrightarrow> range_list i stop step = []"
  by (subst range_list.simps) simp


lemma strip_with_Nil_iff: "strip_with P s = [] \<longleftrightarrow> (\<forall>x\<in>set s. P x)"
proof -
  have "strip_with P s = [] \<longleftrightarrow> (\<forall>x\<in>set (dropWhile P s). P x)"
    by (simp add: strip_with_def dropWhile_eq_Nil_conv)
  also have "\<dots> \<longleftrightarrow> dropWhile P s = []"
    by (metis hd_dropWhile list.set_sel(1) empty_iff list.set(1))
  also have "\<dots> \<longleftrightarrow> (\<forall>x\<in>set s. P x)"
    by (simp add: dropWhile_eq_Nil_conv)
  finally show ?thesis .
qed

lemma strip_Nil_iff: "strip s = [] \<longleftrightarrow> (\<forall>x\<in>set s. isspace x)"
  by (simp add: strip_def strip_with_Nil_iff)













section \<open>Properties of the Table Chunker\<close>

lemma first_separator_line_Some:
  "first_separator_line j ls = Some (i, l) \<Longrightarrow>
     l \<in> set ls \<and> (pipe \<in> set l \<or> tab \<in> set l) \<and> j \<le> i \<and> i < j + length ls"
  by (induction j ls rule: first_separator_line.induct) (auto split: if_splits)

lemma non_empty_lines_table_12:
  "non_empty_lines_of (table_of ''id|a|b'' 12) = ''id|a|b'' # map table_row [1..<13]"
  by code_simp

lemma chunk_table_content_table_12:
  "chunk_table_content (table_of ''id|a|b'' 12) 5 =
     Inr [join [nl] (map table_row [1..<6]),
          ''id|a|b'' @ [nl] @ join [nl] (map table_row [6..<11]),
          ''id|a|b'' @ [nl] @ join [nl] (map table_row [11..<13])]"
  by code_simp

text \<open>
  Claim C8. For every content string whose number of non-blank lines is at most
  \<open>max_rows\<close>, the Table Chunker returns exactly one chunk, and that chunk is the input
  content string itself.
\<close>

theorem chunk_table_content_small:
  "int (length (non_empty_lines_of content)) \<le> max_rows \<Longrightarrow>
     chunk_table_content content max_rows = Inr [content]"
  by (simp add: chunk_table_content_def)

theorem chunk_table_content_small_witness:
  "int (length (non_empty_lines_of (table_of ''id|a|b'' 12))) \<le> 13
   \<and> chunk_table_content (table_of ''id|a|b'' 12) 13 = Inr [table_of ''id|a|b'' 12]"
  using chunk_table_content_small [of "table_of ''id|a|b'' 12" 13]
  by (simp add: non_empty_lines_table_12)

text \<open>
  Claim C7. For every content string with more non-blank lines than \<open>max_rows\<close> in
  which a header line is detected (the first of the first three non-blank lines that
  holds a pipe or a tab), every chunk the Table Chunker emits after the first begins
  with that exact header line: the header and a newline are a prefix of the chunk, and
  the first line of the chunk is the header. Whenever \<open>max_rows\<close> is not zero the
  chunker does return chunks.
\<close>

theorem chunk_table_content_header_repeated:
  assumes more: "max_rows < int (length (non_empty_lines_of content))"
    and header: "first_separator_line 0 (take 3 (non_empty_lines_of content)) = Some (i, header_line)"
  shows "(max_rows \<noteq> 0 \<longrightarrow> (\<exists>chunks. chunk_table_content content max_rows = Inr chunks))
       \<and> (\<forall>chunks k. chunk_table_content content max_rows = Inr chunks \<and> 0 < k \<and> k < length chunks
            \<longrightarrow> prefix (header_line @ [nl]) (chunks ! k)
              \<and> hd (split_lines (chunks ! k)) = header_line)"
proof (rule conjI; (intro allI impI)?)
  assume "max_rows \<noteq> 0"
  with more show "\<exists>chunks. chunk_table_content content max_rows = Inr chunks"
    by (simp add: chunk_table_content_def py_range_def Let_def split: prod.splits)
next
  fix chunks k
  assume a: "chunk_table_content content max_rows = Inr chunks \<and> 0 < k \<and> k < length chunks"
  let ?ne = "non_empty_lines_of content"
  from first_separator_line_Some [OF header]
  have hl: "header_line \<in> set (take 3 ?ne)"
    and sep: "pipe \<in> set header_line \<or> tab \<in> set header_line"
    and i3: "i < length (take 3 ?ne)"
    by auto
  from hl have "header_line \<in> set (split_lines content)"
    by (auto simp: non_empty_lines_of_def dest: in_set_takeD)
  then have no_nl: "nl \<notin> set header_line" by (rule split_lines_no_nl)
  from sep have ne: "header_line \<noteq> []" by auto
  have ih: "identify_header ?ne = (header_line, i + 1)"
    by (simp add: identify_header_def header)
  from a more ih have nz: "max_rows \<noteq> 0"
    and chunks: "chunks = map (table_chunk_at ?ne header_line (i + 1) max_rows)
                   (range_list (int (i + 1)) (int (length ?ne)) max_rows)"
    by (auto simp: chunk_table_content_def py_range_def Let_def split: if_splits)
  from i3 have le: "int (i + 1) \<le> int (length ?ne)" by simp
  have pos: "0 < max_rows"
  proof (rule ccontr)
    assume "\<not> 0 < max_rows"
    with nz have "max_rows < 0" by simp
    from range_list_neg_empty [OF this le] chunks a show False by simp
  qed
  from a chunks have k: "k < length (range_list (int (i + 1)) (int (length ?ne)) max_rows)"
    by simp
  from range_list_nth [OF pos k] a pos
  have "int (i + 1) < range_list (int (i + 1)) (int (length ?ne)) max_rows ! k" by simp
  with chunks k ne
  have "\<exists>rest. chunks ! k = header_line @ nl # rest"
    by (simp add: table_chunk_at_def Let_def)
  then obtain rest where ck: "chunks ! k = header_line @ nl # rest" ..
  show "prefix (header_line @ [nl]) (chunks ! k) \<and> hd (split_lines (chunks ! k)) = header_line"
    by (simp add: ck split_lines_append_nl [OF no_nl] prefix_def)
qed

theorem chunk_table_content_header_repeated_witness:
  "5 < int (length (non_empty_lines_of (table_of ''id|a|b'' 12)))
   \<and> first_separator_line 0 (take 3 (non_empty_lines_of (table_of ''id|a|b'' 12)))
       = Some (0, ''id|a|b'')
   \<and> (\<exists>chunks. chunk_table_content (table_of ''id|a|b'' 12) 5 = Inr chunks \<and> length chunks = 3
        \<and> prefix (''id|a|b'' @ [nl]) (chunks ! 1) \<and> hd (split_lines (chunks ! 1)) = ''id|a|b''
        \<and> prefix (''id|a|b'' @ [nl]) (chunks ! 2) \<and> hd (split_lines (chunks ! 2)) = ''id|a|b'')"
proof -
  have h1: "5 < int (length (non_empty_lines_of (table_of ''id|a|b'' 12)))"
    by (simp add: non_empty_lines_table_12)
  have h2: "first_separator_line 0 (take 3 (non_empty_lines_of (table_of ''id|a|b'' 12)))
              = Some (0, ''id|a|b'')"
    by (simp add: non_empty_lines_table_12)
  from chunk_table_content_header_repeated [OF h1 h2] h1 h2 show ?thesis
    by (simp add: chunk_table_content_table_12)
qed

text \<open>
  Claim C3. On a pipe-delimited table of 25 rows (a header line and 24 data rows) with
  \<open>max_rows = 10\<close> the Table Chunker returns three chunks. The first holds data rows
  1 to 10 and no header line; the second is the header line followed by data rows 11 to
  20, the third the header line followed by data rows 21 to 24. This is not the list
  the claim describes (header and rows 1 to 9, header and rows 10 to 19, header and rows
  20 to 24).
\<close>

theorem chunk_table_content_scenario_b:
  "chunk_table_content (table_of ''id|a|b'' 24) 10 =
     Inr [join [nl] (map table_row [1..<11]),
          ''id|a|b'' @ [nl] @ join [nl] (map table_row [11..<21]),
          ''id|a|b'' @ [nl] @ join [nl] (map table_row [21..<25])]
   \<and> chunk_table_content (table_of ''id|a|b'' 24) 10 \<noteq>
     Inr [join [nl] (''id|a|b'' # map table_row [1..<10]),
          ''id|a|b'' @ [nl] @ join [nl] (map table_row [10..<20]),
          ''id|a|b'' @ [nl] @ join [nl] (map table_row [20..<25])]"
  by code_simp

section \<open>Properties of the Content-Type Classifier\<close>

text \<open>
  Claim C9. For every content string that contains no newline character, the
  Content-Type Classifier returns false, whatever separators and keywords the single
  line holds.
\<close>

theorem is_tabular_section_single_line:
  "nl \<notin> set content \<Longrightarrow> \<not> is_tabular_section content"
  by (simp add: is_tabular_section_def split_lines_no_newline)

theorem is_tabular_section_single_line_witness:
  "nl \<notin> set ''a|b|c|table'' \<and> \<not> is_tabular_section ''a|b|c|table''"
  using is_tabular_section_single_line [of "''a|b|c|table''"] by simp

lemma contains_sublist: "contains sub s \<longleftrightarrow> sublist sub s"
  by (induction s) (auto simp: sublist_Cons_right)

lemma lower_table_keywords: "map lower table_keywords = table_keywords"
  by (simp add: table_keywords_def lower_def lower_char_def)

lemma keyword_present_eq:
  "list_ex (\<lambda>keyword. contains (lower keyword) (lower content)) table_keywords = keyword_occurs content"
proof -
  have "list_ex (\<lambda>keyword. contains (lower keyword) (lower content)) table_keywords
          = (\<exists>k\<in>set (map lower table_keywords). sublist k (lower content))"
    by (simp add: list_ex_iff contains_sublist)
  then show ?thesis by (simp add: lower_table_keywords keyword_occurs_def)
qed

lemma count_ge_mem: "n \<ge> 1 \<Longrightarrow> n \<le> count_list xs x \<Longrightarrow> x \<in> set xs"
  by (metis count_list_0_iff not_one_le_zero le_zero_eq)

lemma pipe_lines_eq:
  "filter (\<lambda>line. pipe \<in> set line \<and> 2 \<le> count_list line pipe) lines
     = filter (\<lambda>line. 2 \<le> count_list line pipe) lines"
  by (rule filter_cong) (auto intro: count_ge_mem [of 2])

lemma tab_lines_eq:
  "filter (\<lambda>line. tab \<in> set line \<and> 1 \<le> count_list line tab) lines
     = filter (\<lambda>line. 1 \<le> count_list line tab) lines"
  by (rule filter_cong) (auto intro: count_ge_mem [of 1])

lemma column_counts_eq: "column_counts_of lines = separator_counts lines"
  by (induction lines) (auto simp: column_counts_of_def separator_counts_def count_list_0_iff)

lemma max_key_from_key:
  "key (max_key_from key best xs) = Max (insert (key best) (key ` set xs))"
proof (induction xs arbitrary: best)
  case Nil
  then show ?case by simp
next
  case (Cons x xs)
  let ?A = "insert (key x) (key ` set xs)"
  have fin: "finite ?A" and ne: "?A \<noteq> {}" by simp_all
  have all: "Max (insert (key best) ?A) = max (key best) (Max ?A)"
    using fin ne by (rule Max_insert)
  show ?case
  proof (cases "key best < key x")
    case True
    have "key x \<le> Max ?A" using fin by (rule Max_ge) simp
    with True have "key best \<le> Max ?A" by linarith
    then have "max (key best) (Max ?A) = Max ?A" by (rule max_absorb2)
    with True Cons [of x] all show ?thesis by simp
  next
    case False
    then have kb: "max (key best) (key x) = key best" by simp
    have "Max ?A = (if key ` set xs = {} then key x else max (key x) (Max (key ` set xs)))"
      by simp
    with kb have "max (key best) (Max ?A) = Max (insert (key best) (key ` set xs))"
      by (auto simp: max.assoc [symmetric])
    with False Cons [of best] all show ?thesis by simp
  qed
qed

lemma most_common_any_order:
  assumes "set (x # xs) = set column_counts"
  shows "count_list column_counts (max_key_from (count_list column_counts) x xs)
           = Max (set (map (count_list column_counts) column_counts))"
proof -
  have "insert (count_list column_counts x) (count_list column_counts ` set xs)
          = count_list column_counts ` set (x # xs)" by simp
  also have "\<dots> = set (map (count_list column_counts) column_counts)"
    by (simp only: assms set_map)
  finally show ?thesis by (simp only: max_key_from_key)
qed

lemma most_common_count_Max:
  assumes "column_counts \<noteq> []"
  shows "count_list column_counts (most_common_count column_counts)
           = Max (set (map (count_list column_counts) column_counts))"
proof -
  have "set (sort (remdups column_counts)) = set column_counts" by simp
  moreover from assms have "sort (remdups column_counts) \<noteq> []"
    by (metis calculation set_empty)
  ultimately obtain x xs where eq: "sort (remdups column_counts) = x # xs"
    and s: "set (x # xs) = set column_counts"
    by (cases "sort (remdups column_counts)") auto
  from most_common_any_order [OF s] eq show ?thesis
    by (simp add: most_common_count_def)
qed

lemma ratio_div: "ratio k n = of_nat k / of_nat n"
  by (simp add: ratio_def)

lemma consistency_eq:
  "(if column_counts \<noteq> []
    then of_nat (count_list column_counts (most_common_count column_counts))
           / of_nat (length column_counts)
    else (0 :: rat)) = consistency_of column_counts"
  by (simp add: consistency_of_def ratio_div most_common_count_Max)

text \<open>
  Claim C2, amended. For every content string the classifier returns true exactly when
  the content splits at newlines into at least two lines and, with the pipe ratio, the
  tab ratio and the separator counts taken over all of these lines (blank lines count in
  the totals), one of these holds: the pipe ratio exceeds 0.4; the tab ratio exceeds
  0.3; the share of the most frequent count exceeds 0.6 and more than one count was
  recorded; a keyword occurs in the lower-cased content and the pipe ratio or the tab
  ratio exceeds 0.2.
\<close>

theorem is_tabular_section_amended:
  "is_tabular_section content = classifier_amended content"
  unfolding is_tabular_section_def classifier_amended_def Let_def
    pipe_lines_eq tab_lines_eq column_counts_eq consistency_eq keyword_present_eq
    pipe_ratio_of_def tab_ratio_of_def ratio_div
  by auto

text \<open>
  Claim C2, as stated, fails. A single line \<open>a|b|c\<close> is classified as prose by the code
  (fewer than two lines) and as tabular by the claim; the same line followed by three
  newlines has a pipe ratio of 1/4 in the code, where blank lines count in the total,
  and of 1 over the non-blank lines; and seven lines of which two hold one pipe each are
  tabular in the code (two recorded counts, all equal) and not in the claim (one
  distinct count value).
\<close>

theorem is_tabular_section_claimed_counterexample:
  "\<not> is_tabular_section ''a|b|c'' \<and> classifier_claimed ''a|b|c''
   \<and> \<not> is_tabular_section (''a|b|c'' @ [nl, nl, nl]) \<and> classifier_claimed (''a|b|c'' @ [nl, nl, nl])
   \<and> is_tabular_section seven_lines \<and> \<not> classifier_claimed seven_lines"
  by code_simp

theorem is_tabular_section_amended_witness:
  "is_tabular_section seven_lines \<and> classifier_amended seven_lines
   \<and> \<not> is_tabular_section ''a|b|c'' \<and> \<not> classifier_amended ''a|b|c''"
proof -
  have "is_tabular_section seven_lines" "\<not> is_tabular_section ''a|b|c''" by code_simp+
  with is_tabular_section_amended [of seven_lines] is_tabular_section_amended [of "''a|b|c''"]
  show ?thesis by simp
qed

section \<open>Properties of the Prose Chunker\<close>

lemma filter_dropWhile_disjoint:
  "(\<And>x. Q x \<Longrightarrow> \<not> P x) \<Longrightarrow> filter P (dropWhile Q xs) = filter P xs"
  by (induction xs) auto

lemma terminator_not_space: "isspace c \<Longrightarrow> \<not> is_terminator c"
  by (auto simp: isspace_def is_terminator_def Let_def)

lemma filter_terminator_strip: "filter is_terminator (strip s) = filter is_terminator s"
  by (simp add: strip_def strip_with_def rev_filter [symmetric]
        filter_dropWhile_disjoint [of isspace is_terminator, OF terminator_not_space])

lemma cons_first_terminators:
  "\<not> is_terminator c \<Longrightarrow> \<forall>s\<in>set ss. \<forall>x\<in>set s. \<not> is_terminator x \<Longrightarrow>
   \<forall>s\<in>set (cons_first c ss). \<forall>x\<in>set s. \<not> is_terminator x"
  by (cases ss) auto

lemma split_sentences_no_terminator:
  "\<forall>s\<in>set (split_sentences p). \<forall>x\<in>set s. \<not> is_terminator x"
proof (induction p rule: split_sentences.induct)
  case 1
  then show ?case by simp
next
  case (2 c cs)
  show ?case
  proof (cases "is_terminator c")
    case True
    with 2 show ?thesis by simp
  next
    case False
    with 2 have "\<forall>s\<in>set (split_sentences cs). \<forall>x\<in>set s. \<not> is_terminator x" by simp
    from cons_first_terminators [OF False this] False show ?thesis by simp
  qed
qed

lemma pack_sentences_terminators:
  "\<forall>s\<in>set ss. \<forall>x\<in>set s. \<not> is_terminator x \<Longrightarrow>
   pack_sentences m ss (chunks, cur) = (chunks', cur') \<Longrightarrow>
   filter is_terminator (concat chunks' @ cur') = filter is_terminator (concat chunks @ cur)"
proof (induction ss arbitrary: chunks cur)
  case Nil
  then show ?case by simp
next
  case (Cons raw rest)
  have raw: "filter is_terminator (strip raw) = []"
    using Cons.prems(1) by (simp add: filter_terminator_strip filter_empty_conv)
  show ?case
  proof (cases "strip raw = []")
    case True
    with Cons show ?thesis by simp
  next
    case False
    show ?thesis
    proof (cases "m < int (length cur) + int (length (strip raw))")
      case True
      with False Cons.prems
      have "pack_sentences m rest (if cur \<noteq> [] then chunks @ [strip cur] else chunks, strip raw) = (chunks', cur')"
        by (simp add: Let_def)
      from Cons.IH [OF _ this] Cons.prems(1) raw show ?thesis
        by (simp add: filter_terminator_strip)
    next
      case nofit: False
      with False Cons.prems
      have "pack_sentences m rest (chunks, if cur \<noteq> [] then cur @ '' '' @ strip raw else strip raw) = (chunks', cur')"
        by (simp add: Let_def)
      have "\<not> is_terminator CHR '' ''" by (simp add: is_terminator_def)
      with Cons.IH [OF _ \<open>pack_sentences m rest _ = _\<close>] Cons.prems(1) raw show ?thesis
        by simp
    qed
  qed
qed

text \<open>
  Claim C10, amended. For every paragraph longer than \<open>max_chars\<close>, the chunks the
  Prose Chunker builds from it hold none of the terminators \<open>.\<close>, \<open>!\<close>, \<open>?\<close> of that
  paragraph. Whatever chunks and current chunk the paragraph loop has reached, handling
  the paragraph adds no terminator to them. When the paragraph is the whole content, no
  emitted chunk holds a terminator, and if the paragraph holds at least one terminator,
  the concatenation of the chunks is not the paragraph.
\<close>

theorem long_paragraph_loses_terminators:
  assumes long: "max_chars < int (length paragraph)"
  shows "(\<forall>chunks cur chunks' cur'.
            pack_paragraphs max_chars [paragraph] (chunks, cur) = (chunks', cur') \<longrightarrow>
            filter is_terminator (concat chunks' @ cur') = filter is_terminator (concat chunks @ cur))
       \<and> (split_paragraphs paragraph = [paragraph] \<longrightarrow>
            (\<forall>c\<in>set (chunk_text_content paragraph max_chars). \<forall>x\<in>set c. \<not> is_terminator x)
            \<and> ((\<exists>x\<in>set paragraph. is_terminator x) \<longrightarrow>
                 concat (chunk_text_content paragraph max_chars) \<noteq> paragraph))"
proof (rule conjI; (intro allI impI)?)
  fix chunks cur chunks' cur'
  assume "pack_paragraphs max_chars [paragraph] (chunks, cur) = (chunks', cur')"
  with long have "pack_sentences max_chars (split_sentences paragraph) (chunks, cur) = (chunks', cur')"
    by simp
  from pack_sentences_terminators [OF split_sentences_no_terminator this]
  show "filter is_terminator (concat chunks' @ cur') = filter is_terminator (concat chunks @ cur)" .
next
  assume single: "split_paragraphs paragraph = [paragraph]"
  obtain chunks' cur' where
    ps: "pack_sentences max_chars (split_sentences paragraph) ([], []) = (chunks', cur')"
    by (cases "pack_sentences max_chars (split_sentences paragraph) ([], [])") auto
  from pack_sentences_terminators [OF split_sentences_no_terminator ps]
  have none: "filter is_terminator (concat chunks' @ cur') = []" by simp
  from long single ps
  have res: "chunk_text_content paragraph max_chars =
               (if cur' \<noteq> [] then chunks' @ [strip cur'] else chunks')"
    by (simp add: chunk_text_content_def)
  have all: "filter is_terminator (concat (chunk_text_content paragraph max_chars)) = []"
    using none by (simp add: res filter_terminator_strip)
  then have part1: "\<forall>c\<in>set (chunk_text_content paragraph max_chars). \<forall>x\<in>set c. \<not> is_terminator x"
    by (auto simp: filter_empty_conv)
  have part2: "(\<exists>x\<in>set paragraph. is_terminator x) \<longrightarrow>
                 concat (chunk_text_content paragraph max_chars) \<noteq> paragraph"
  proof
    assume "\<exists>x\<in>set paragraph. is_terminator x"
    then have "filter is_terminator paragraph \<noteq> []" by (simp add: filter_empty_conv)
    with all show "concat (chunk_text_content paragraph max_chars) \<noteq> paragraph" by auto
  qed
  from part1 part2
  show "(\<forall>c\<in>set (chunk_text_content paragraph max_chars). \<forall>x\<in>set c. \<not> is_terminator x)
            \<and> ((\<exists>x\<in>set paragraph. is_terminator x) \<longrightarrow>
                 concat (chunk_text_content paragraph max_chars) \<noteq> paragraph)" by simp
qed

theorem long_paragraph_loses_terminators_witness:
  "20 < int (length ''One two. Three four! Five six? Seven'')
   \<and> pack_paragraphs 20 [''One two. Three four! Five six? Seven''] ([''x.''], ''Hi.'')
       = ([''x.'', ''Hi. One two'', ''Three four Five six''], ''Seven'')
   \<and> split_paragraphs ''One two. Three four! Five six? Seven'' = [''One two. Three four! Five six? Seven'']
   \<and> chunk_text_content ''One two. Three four! Five six? Seven'' 20
       = [''One two Three four'', ''Five six Seven'']
   \<and> list_all (list_all (\<lambda>x. \<not> is_terminator x))
         (chunk_text_content ''One two. Three four! Five six? Seven'' 20)
   \<and> concat (chunk_text_content ''One two. Three four! Five six? Seven'' 20)
       \<noteq> ''One two. Three four! Five six? Seven''"
proof -
  have h: "20 < int (length ''One two. Three four! Five six? Seven'')" by simp
  have e1: "pack_paragraphs 20 [''One two. Three four! Five six? Seven''] ([''x.''], ''Hi.'')
       = ([''x.'', ''Hi. One two'', ''Three four Five six''], ''Seven'')"
    by code_simp
  have e2: "split_paragraphs ''One two. Three four! Five six? Seven'' = [''One two. Three four! Five six? Seven'']"
    by code_simp
  have e3: "chunk_text_content ''One two. Three four! Five six? Seven'' 20
       = [''One two Three four'', ''Five six Seven'']"
    by code_simp
  have e4: "\<exists>x\<in>set ''One two. Three four! Five six? Seven''. is_terminator x"
    by (simp add: is_terminator_def)
  from long_paragraph_loses_terminators [OF h] e2 e4
  have "(\<forall>c\<in>set (chunk_text_content ''One two. Three four! Five six? Seven'' 20).
           \<forall>x\<in>set c. \<not> is_terminator x)
      \<and> concat (chunk_text_content ''One two. Three four! Five six? Seven'' 20)
           \<noteq> ''One two. Three four! Five six? Seven''"
    by blast
  then have "list_all (list_all (\<lambda>x. \<not> is_terminator x))
               (chunk_text_content ''One two. Three four! Five six? Seven'' 20)
      \<and> concat (chunk_text_content ''One two. Three four! Five six? Seven'' 20)
           \<noteq> ''One two. Three four! Five six? Seven''"
    by (simp add: list_all_iff)
  with h e1 e2 e3 show ?thesis by blast
qed

text \<open>
  Claim C10, as stated, fails. A paragraph of 30 letters with no terminator, with
  \<open>max_chars = 20\<close>, is one sentence longer than the bound: it is emitted whole as the
  only chunk, so the concatenation of the chunks is the paragraph itself.
\<close>

theorem long_paragraph_reproduced_counterexample:
  "20 < int (length (replicate 30 CHR ''a''))
   \<and> split_paragraphs (replicate 30 CHR ''a'') = [replicate 30 CHR ''a'']
   \<and> chunk_text_content (replicate 30 CHR ''a'') 20 = [replicate 30 CHR ''a'']
   \<and> concat (chunk_text_content (replicate 30 CHR ''a'') 20) = replicate 30 CHR ''a''"
  by code_simp

text \<open>
  Claim C4. Two paragraphs of 500 characters separated by a blank line, with
  \<open>max_chars = 1000\<close>, give one chunk of 1002 characters: the size check adds the
  lengths of the current chunk and of the paragraph but not the separator that joins
  them. The chunk holds two paragraphs, neither longer than \<open>max_chars\<close>. The sentence
  loop does the same with its one-character separator.
\<close>

theorem chunk_text_content_separator_overflow:
  "chunk_text_content (two_paragraphs 500) 1000 = [two_paragraphs 500]
   \<and> length (two_paragraphs 500) = 1002
   \<and> split_paragraphs (two_paragraphs 500) = [replicate 500 CHR ''a'', replicate 500 CHR ''b'']
   \<and> chunk_text_content ''aaaa. aaaaaa! bb? c'' 10 = [''aaaa aaaaaa'', ''bb c'']
   \<and> length ''aaaa aaaaaa'' = 11"
  by code_simp

section \<open>Properties of the Section Splitter\<close>

lemma closed_simps [simp]: "closed []" "closed (c @ [nl])" "closed (c @ l @ [nl])"
  by (simp_all add: closed_def)

lemma recorded_append [simp]: "recorded (a @ b) = recorded a @ recorded b"
  by (simp add: recorded_def)

lemma sealed_ok_append [simp]: "sealed_ok (a @ b) \<longleftrightarrow> sealed_ok a \<and> sealed_ok b"
  by (auto simp: sealed_ok_def)

lemma non_empty_lines_of_Nil [simp]: "non_empty_lines_of [] = []"
  by (simp add: non_empty_lines_of_def strip_def strip_with_def)







section \<open>Properties of the Chunk Assembler\<close>

lemma of_char_digit_char: "d < 10 \<Longrightarrow> (of_char (digit_char d) :: nat) = 48 + d"
  by (simp add: digit_char_def)

lemma is_digit_digit_char: "d < 10 \<Longrightarrow> is_digit (digit_char d)"
  by (simp add: is_digit_def of_char_digit_char)

lemma str_nat_digits: "\<forall>c\<in>set (str_nat n). is_digit c"
proof (induction n rule: str_nat.induct)
  case (1 n)
  show ?case
  proof (cases "n < 10")
    case True
    then show ?thesis by (subst str_nat.simps) (simp add: is_digit_digit_char)
  next
    case False
    with 1 show ?thesis by (subst str_nat.simps) (simp add: is_digit_digit_char)
  qed
qed

lemma nat_of_digits_str_nat: "nat_of_digits (str_nat n) = n"
proof (induction n rule: str_nat.induct)
  case (1 n)
  show ?case
  proof (cases "n < 10")
    case True
    then show ?thesis
      by (subst str_nat.simps) (simp add: nat_of_digits_def of_char_digit_char)
  next
    case False
    with 1 have "nat_of_digits (str_nat (n div 10)) = n div 10" by simp
    with False show ?thesis
      by (subst str_nat.simps) (simp add: nat_of_digits_def of_char_digit_char)
  qed
qed

lemma str_nat_inj: "str_nat a = str_nat b \<Longrightarrow> a = b"
  by (metis nat_of_digits_str_nat)

lemma digits_split:
  assumes "\<forall>x\<in>set xs. is_digit x" and "\<forall>y\<in>set ys. is_digit y"
    and "\<not> is_digit c" and "\<not> is_digit c'"
    and "xs @ c # r = ys @ c' # r'"
  shows "xs = ys \<and> c = c' \<and> r = r'"
proof -
  have "takeWhile is_digit (xs @ c # r) = xs"
    using assms(1,3) by (simp add: takeWhile_append2)
  moreover have "takeWhile is_digit (ys @ c' # r') = ys"
    using assms(2,4) by (simp add: takeWhile_append2)
  ultimately have "xs = ys" using assms(5) by simp
  with assms(5) show ?thesis by simp
qed

lemma underscore_not_digit: "\<not> is_digit CHR ''_''"
  by (simp add: is_digit_def)

lemma chunk_id_of_inj:
  assumes "chunk_id_of d p j kind k = chunk_id_of d p' j' kind' k'"
  shows "p = p' \<and> j = j' \<and> kind = kind' \<and> k = k'"
proof -
  from assms have 1: "str_nat p @ CHR ''_'' # (''s'' @ str_nat j @ ''_'' @ [kind] @ str_nat k)
      = str_nat p' @ CHR ''_'' # (''s'' @ str_nat j' @ ''_'' @ [kind'] @ str_nat k')"
    by (simp add: chunk_id_of_def)
  from digits_split [OF str_nat_digits str_nat_digits underscore_not_digit underscore_not_digit 1]
  have p: "str_nat p = str_nat p'"
    and 2: "str_nat j @ CHR ''_'' # ([kind] @ str_nat k) = str_nat j' @ CHR ''_'' # ([kind'] @ str_nat k')"
    by simp_all
  from digits_split [OF str_nat_digits str_nat_digits underscore_not_digit underscore_not_digit 2]
  have j: "str_nat j = str_nat j'" and kind: "kind = kind'" and k: "str_nat k = str_nat k'"
    by simp_all
  from p j kind k show ?thesis by (simp add: str_nat_inj)
qed

lemma collect_Inr:
  "\<forall>x\<in>set xs. \<exists>ys. f x = Inr ys \<Longrightarrow> collect f xs = Inr (concat (map (\<lambda>x. projr (f x)) xs))"
  by (induction xs) auto

lemma set_concat_enumerate:
  "x \<in> set (concat (map (\<lambda>(i, y). F i y) (enumerate 0 ys))) \<longleftrightarrow> (\<exists>i<length ys. x \<in> set (F i (ys ! i)))"
proof
  assume "x \<in> set (concat (map (\<lambda>(i, y). F i y) (enumerate 0 ys)))"
  then obtain i y where "(i, y) \<in> set (enumerate 0 ys)" and "x \<in> set (F i y)" by auto
  then show "\<exists>i<length ys. x \<in> set (F i (ys ! i))"
    by (auto simp: in_set_enumerate_eq)
next
  assume "\<exists>i<length ys. x \<in> set (F i (ys ! i))"
  then obtain i where i: "i < length ys" and x: "x \<in> set (F i (ys ! i))" by blast
  from i have "(i, ys ! i) \<in> set (enumerate 0 ys)" by (simp add: in_set_enumerate_eq)
  with x show "x \<in> set (concat (map (\<lambda>(i, y). F i y) (enumerate 0 ys)))"
    by (auto intro!: bexI [of _ "(i, ys ! i)"])
qed

lemma distinct_indexed_concat:
  assumes "\<And>i. i < length ys \<Longrightarrow> distinct (F i (ys ! i))"
    and "\<And>i j. i < length ys \<Longrightarrow> j < length ys \<Longrightarrow> i \<noteq> j \<Longrightarrow>
           set (F i (ys ! i)) \<inter> set (F j (ys ! j)) = {}"
  shows "distinct (concat (map (\<lambda>(i, y). F i y) (enumerate 0 ys)))"
  using assms
proof (induction ys rule: rev_induct)
  case Nil
  then show ?case by simp
next
  case (snoc y ys)
  have d1: "distinct (concat (map (\<lambda>(i, y). F i y) (enumerate 0 ys)))"
  proof (rule snoc.IH)
    fix i assume "i < length ys"
    with snoc.prems(1) [of i] show "distinct (F i (ys ! i))" by (simp add: nth_append)
  next
    fix i j assume "i < length ys" "j < length ys" "i \<noteq> j"
    with snoc.prems(2) [of i j] show "set (F i (ys ! i)) \<inter> set (F j (ys ! j)) = {}"
      by (simp add: nth_append)
  qed
  have d2: "distinct (F (length ys) y)"
    using snoc.prems(1) [of "length ys"] by simp
  have d3: "set (concat (map (\<lambda>(i, y). F i y) (enumerate 0 ys))) \<inter> set (F (length ys) y) = {}"
  proof -
    have "\<And>i. i < length ys \<Longrightarrow> set (F i (ys ! i)) \<inter> set (F (length ys) y) = {}"
      using snoc.prems(2) [of _ "length ys"] by (simp add: nth_append)
    then show ?thesis
      using set_concat_enumerate [of _ F ys] by blast
  qed
  from d1 d2 d3 show ?case by (simp add: enumerate_append_eq)
qed

lemma chunk_table_content_default: "\<exists>cs. chunk_table_content c 10 = Inr cs"
  by (simp add: chunk_table_content_def py_range_def Let_def split: prod.splits)

lemma map_enumerate_index: "map (\<lambda>(k, t). f k) (enumerate 0 ts) = map f [0..<length ts]"
proof -
  have "map (\<lambda>(k, t). f k) (enumerate 0 ts) = map (f \<circ> fst) (enumerate 0 ts)"
    by (simp add: split_def comp_def)
  also have "\<dots> = map f (map fst (enumerate 0 ts))" by (simp only: map_map)
  also have "map fst (enumerate 0 ts) = [0..<length ts]"
    by (simp only: map_fst_enumerate add_0)
  finally show ?thesis .
qed

lemma section_chunks_shape:
  "\<exists>cs. section_chunks doc now p j sec = Inr cs
     \<and> map chunk_id cs = map (chunk_id_of (fst doc) p j (kind_char (section_kind sec))) [0..<length cs]
     \<and> (\<forall>c\<in>set cs. page_number c = p \<and> section_index c = j \<and> document_id c = fst doc
            \<and> chunk_type c = section_kind sec)"
proof -
  obtain d n path where doc: "doc = (d, n, path)" by (cases doc) auto
  note ids = map_enumerate_index
  show ?thesis
  proof (cases "is_tabular_section (section_content sec)")
    case True
    obtain ts where ts: "chunk_table_content (section_content sec) 10 = Inr ts"
      using chunk_table_content_default by blast
    show ?thesis
      using True ids [of "chunk_id_of d p j CHR ''t''" ts]
      by (auto simp: section_chunks_def doc ts kind_char_def section_kind_def
            comp_def split_def in_set_enumerate_eq)
  next
    case False
    show ?thesis
      using False ids [of "chunk_id_of d p j CHR ''c''" "chunk_text_content (section_content sec) 1000"]
      by (auto simp: section_chunks_def doc kind_char_def section_kind_def
            comp_def split_def in_set_enumerate_eq)
  qed
qed

lemma section_chunks_total: "\<exists>ys. section_chunks doc now p j sec = Inr ys"
  using section_chunks_shape [of doc now p j sec] by blast

lemma section_chunks_eq:
  "section_chunks doc (clock p j) (p + 1) j sec = Inr (chunks_of_section doc clock p j sec)"
  using section_chunks_shape [of doc "clock p j" "p + 1" j sec]
  by (auto simp: chunks_of_section_def)

lemma page_chunks_eq:
  "page_chunks doc clock p page_text = Inr (chunks_of_page doc clock p page_text)"
proof -
  have "collect (\<lambda>(j, sec). section_chunks doc (clock p j) (p + 1) j sec)
          (enumerate 0 (split_by_headers page_text))
        = Inr (concat (map (\<lambda>x. projr ((\<lambda>(j, sec). section_chunks doc (clock p j) (p + 1) j sec) x))
            (enumerate 0 (split_by_headers page_text))))"
    by (rule collect_Inr) (auto simp: section_chunks_total)
  then show ?thesis
    by (simp add: page_chunks_def chunks_of_page_def chunks_of_section_def split_def)
qed

lemma chunk_document_eq:
  "chunk_document doc clock documents
     = Inr (concat (map (\<lambda>(p, page_text). chunks_of_page doc clock p page_text)
         (enumerate 0 documents)))"
proof -
  have "collect (\<lambda>(p, page_text). page_chunks doc clock p page_text) (enumerate 0 documents)
        = Inr (concat (map (\<lambda>x. projr ((\<lambda>(p, page_text). page_chunks doc clock p page_text) x))
            (enumerate 0 documents)))"
    by (rule collect_Inr) (auto simp: page_chunks_eq)
  then show ?thesis
    by (simp add: chunk_document_def page_chunks_eq split_def)
qed

lemma chunks_of_section_shape:
  "map chunk_id (chunks_of_section doc clock p j sec)
     = map (chunk_id_of (fst doc) (p + 1) j (kind_char (section_kind sec)))
         [0..<length (chunks_of_section doc clock p j sec)]"
  "c \<in> set (chunks_of_section doc clock p j sec) \<Longrightarrow>
     page_number c = p + 1 \<and> section_index c = j \<and> document_id c = fst doc
     \<and> chunk_type c = section_kind sec"
  using section_chunks_shape [of doc "clock p j" "p + 1" j sec]
  by (auto simp: chunks_of_section_def)

lemma chunks_of_section_id:
  assumes "x \<in> set (map chunk_id (chunks_of_section doc clock p j sec))"
  shows "\<exists>k. x = chunk_id_of (fst doc) (p + 1) j (kind_char (section_kind sec)) k"
  using assms unfolding chunks_of_section_shape(1) by auto

lemma distinct_section_ids: "distinct (map chunk_id (chunks_of_section doc clock p j sec))"
  unfolding chunks_of_section_shape(1)
  by (simp add: distinct_map inj_on_def) (metis chunk_id_of_inj)

lemma map_concat_enumerate:
  "map g (concat (map (\<lambda>(i, y). F i y) (enumerate 0 ys)))
     = concat (map (\<lambda>(i, y). map g (F i y)) (enumerate 0 ys))"
  by (simp add: map_concat comp_def split_def)

lemma chunks_of_page_id:
  assumes "x \<in> set (map chunk_id (chunks_of_page doc clock p page_text))"
  shows "\<exists>j kind k. x = chunk_id_of (fst doc) (p + 1) j kind k"
proof -
  from assms obtain j where "j < length (split_by_headers page_text)"
    and "x \<in> set (map chunk_id (chunks_of_section doc clock p j (split_by_headers page_text ! j)))"
    unfolding chunks_of_page_def map_concat_enumerate set_concat_enumerate by blast
  with chunks_of_section_id show ?thesis by blast
qed

lemma distinct_page_ids: "distinct (map chunk_id (chunks_of_page doc clock p page_text))"
  unfolding chunks_of_page_def map_concat_enumerate
proof (rule distinct_indexed_concat)
  fix j
  show "distinct (map chunk_id (chunks_of_section doc clock p j (split_by_headers page_text ! j)))"
    by (rule distinct_section_ids)
next
  fix i j :: nat
  assume "i \<noteq> j"
  show "set (map chunk_id (chunks_of_section doc clock p i (split_by_headers page_text ! i)))
      \<inter> set (map chunk_id (chunks_of_section doc clock p j (split_by_headers page_text ! j))) = {}"
  proof (rule ccontr)
    assume "\<not> ?thesis"
    then obtain x where
      "x \<in> set (map chunk_id (chunks_of_section doc clock p i (split_by_headers page_text ! i)))"
      "x \<in> set (map chunk_id (chunks_of_section doc clock p j (split_by_headers page_text ! j)))"
      by blast
    then obtain k k' kind kind' where "x = chunk_id_of (fst doc) (p + 1) i kind k"
      "x = chunk_id_of (fst doc) (p + 1) j kind' k'"
      using chunks_of_section_id by metis
    with chunk_id_of_inj have "i = j" by metis
    with \<open>i \<noteq> j\<close> show False by simp
  qed
qed

lemma distinct_document_ids:
  "distinct (map chunk_id (concat (map (\<lambda>(p, page_text). chunks_of_page doc clock p page_text)
      (enumerate 0 documents))))"
  unfolding map_concat_enumerate
proof (rule distinct_indexed_concat)
  fix p
  show "distinct (map chunk_id (chunks_of_page doc clock p (documents ! p)))"
    by (rule distinct_page_ids)
next
  fix p q :: nat
  assume "p \<noteq> q"
  show "set (map chunk_id (chunks_of_page doc clock p (documents ! p)))
      \<inter> set (map chunk_id (chunks_of_page doc clock q (documents ! q))) = {}"
  proof (rule ccontr)
    assume "\<not> ?thesis"
    then obtain x where
      "x \<in> set (map chunk_id (chunks_of_page doc clock p (documents ! p)))"
      "x \<in> set (map chunk_id (chunks_of_page doc clock q (documents ! q)))"
      by blast
    then obtain j k kind j' k' kind' where "x = chunk_id_of (fst doc) (p + 1) j kind k"
      "x = chunk_id_of (fst doc) (q + 1) j' kind' k'"
      using chunks_of_page_id by metis
    with chunk_id_of_inj have "p + 1 = q + 1" by metis
    with \<open>p \<noteq> q\<close> show False by simp
  qed
qed

lemma chunk_in_document:
  "c \<in> set (concat (map (\<lambda>(p, page_text). chunks_of_page doc clock p page_text) (enumerate 0 documents)))
    \<longleftrightarrow> (\<exists>p<length documents. \<exists>j<length (split_by_headers (documents ! p)).
          c \<in> set (chunks_of_section doc clock p j (split_by_headers (documents ! p) ! j)))"
  unfolding set_concat_enumerate chunks_of_page_def ..

text \<open>
  Claim C6. For every input document the Chunk Assembler returns its chunks without
  error, the \<open>chunk_id\<close> values of the chunks are pairwise distinct, and each is the
  document id followed by \<open>_p\<close>, the page number, \<open>_s\<close>, the section index, \<open>_\<close>, the
  letter \<open>t\<close> for a table chunk or \<open>c\<close> for a text chunk, and a sub-index. The result
  is the chunks of the pages in order, each page giving the chunks of its sections in
  order, and within a section the sub-indexes count the chunks from 0.
\<close>

theorem chunk_ids_distinct_and_formed:
  "\<exists>chunks. chunk_document doc clock documents = Inr chunks
     \<and> distinct (map chunk_id chunks)
     \<and> (\<forall>c\<in>set chunks. document_id c = fst doc
          \<and> (\<exists>sub_index. chunk_id c =
                chunk_id_of (document_id c) (page_number c) (section_index c)
                  (kind_char (chunk_type c)) sub_index))
     \<and> chunks = concat (map (\<lambda>(p, page_text). chunks_of_page doc clock p page_text)
                   (enumerate 0 documents))
     \<and> (\<forall>p j sec. map chunk_id (chunks_of_section doc clock p j sec)
            = map (chunk_id_of (fst doc) (p + 1) j (kind_char (section_kind sec)))
                [0..<length (chunks_of_section doc clock p j sec)])"
proof -
  let ?chunks = "concat (map (\<lambda>(p, page_text). chunks_of_page doc clock p page_text)
      (enumerate 0 documents))"
  have form: "\<forall>c\<in>set ?chunks. document_id c = fst doc
          \<and> (\<exists>sub_index. chunk_id c =
                chunk_id_of (document_id c) (page_number c) (section_index c)
                  (kind_char (chunk_type c)) sub_index)"
  proof
    fix c assume "c \<in> set ?chunks"
    then obtain p j where
      c: "c \<in> set (chunks_of_section doc clock p j (split_by_headers (documents ! p) ! j))"
      unfolding chunk_in_document by blast
    let ?sec = "split_by_headers (documents ! p) ! j"
    from chunks_of_section_shape(2) [OF c]
    have f: "page_number c = p + 1" "section_index c = j" "document_id c = fst doc"
      "chunk_type c = section_kind ?sec" by simp_all
    from c have "chunk_id c \<in> set (map chunk_id (chunks_of_section doc clock p j ?sec))" by simp
    from chunks_of_section_id [OF this] f
    show "document_id c = fst doc
          \<and> (\<exists>sub_index. chunk_id c =
                chunk_id_of (document_id c) (page_number c) (section_index c)
                  (kind_char (chunk_type c)) sub_index)" by simp
  qed
  have sub: "\<forall>p j sec. map chunk_id (chunks_of_section doc clock p j sec)
            = map (chunk_id_of (fst doc) (p + 1) j (kind_char (section_kind sec)))
                [0..<length (chunks_of_section doc clock p j sec)]"
    by (intro allI) (rule chunks_of_section_shape(1))
  from chunk_document_eq [of doc clock documents] distinct_document_ids [of doc clock documents]
    form sub
  show ?thesis by blast
qed

lemma chunk_document_two_pages:
  "map chunk_id (projr (chunk_document (''doc'', ''name'', ''path'') epoch_clock [title_hello, seven_lines]))
     = [''doc_p1_s0_c0'', ''doc_p2_s0_t0'']"
  by code_simp

theorem chunk_ids_distinct_and_formed_witness:
  "map chunk_id (projr (chunk_document (''doc'', ''name'', ''path'') epoch_clock [title_hello, seven_lines]))
     = [''doc_p1_s0_c0'', ''doc_p2_s0_t0'']
   \<and> (\<exists>chunks. chunk_document (''doc'', ''name'', ''path'') epoch_clock [title_hello, seven_lines]
          = Inr chunks \<and> length chunks = 2 \<and> distinct (map chunk_id chunks))"
proof -
  from chunk_ids_distinct_and_formed [of "(''doc'', ''name'', ''path'')" epoch_clock "[title_hello, seven_lines]"]
  obtain chunks where c: "chunk_document (''doc'', ''name'', ''path'') epoch_clock [title_hello, seven_lines]
          = Inr chunks" and d: "distinct (map chunk_id chunks)" by blast
  from c chunk_document_two_pages have "map chunk_id chunks = [''doc_p1_s0_c0'', ''doc_p2_s0_t0'']"
    by simp
  then have "length (map chunk_id chunks) = 2" by simp
  then have "length chunks = 2" by simp
  with c d chunk_document_two_pages show ?thesis by blast
qed

lemma is_tabular_section_first_guard: "nl \<notin> set content \<Longrightarrow> \<not> is_tabular_section content"
  by (simp add: is_tabular_section_def split_lines_no_newline)

lemma strip_nonblank_iff: "strip s \<noteq> [] \<longleftrightarrow> (\<exists>x\<in>set s. \<not> isspace x)"
  by (simp add: strip_Nil_iff)

lemma range_list_mem:
  "0 < step \<Longrightarrow> i \<in> set (range_list a stop step) \<Longrightarrow> a \<le> i \<and> i < stop"
proof (induction a stop step rule: range_list.induct)
  case (1 a stop step)
  show ?case
  proof (cases "a < stop")
    case True
    with 1 show ?thesis
      by (subst (asm) (2) range_list.simps) (auto split: if_splits)
  next
    case False
    with 1 show ?thesis
      by (subst (asm) (2) range_list.simps) (auto split: if_splits)
  qed
qed

lemma range_list_nonempty: "0 < step \<Longrightarrow> a < stop \<Longrightarrow> range_list a stop step \<noteq> []"
  by (subst range_list.simps) simp

lemma set_hd_join: "set x \<subseteq> set (join sep (x # xs))"
  by (cases xs) auto

lemma non_empty_lines_nonblank: "l \<in> set (non_empty_lines_of c) \<Longrightarrow> strip l \<noteq> []"
  by (simp add: non_empty_lines_of_def)

lemma identify_header_start: "snd (identify_header ls) \<le> 3"
proof (cases "first_separator_line 0 (take 3 ls)")
  case None
  then show ?thesis by (simp add: identify_header_def)
next
  case (Some a)
  obtain i l where a: "a = (i, l)" by (cases a)
  from first_separator_line_Some [of 0 "take 3 ls" i l] Some a have "i < 3" by simp
  with Some a show ?thesis by (simp add: identify_header_def)
qed

lemma table_chunk_at_nonblank:
  assumes "0 \<le> i" and "nat i < length ls" and "0 < max_rows"
    and "\<forall>l\<in>set ls. strip l \<noteq> []"
  shows "strip (table_chunk_at ls h start max_rows i) \<noteq> []"
proof -
  let ?rows = "take (nat max_rows) (drop (nat i) ls)"
  from assms(2,3) have "?rows \<noteq> []" by simp
  then obtain r rs where rows: "?rows = r # rs" by (cases ?rows) auto
  then have "r \<in> set ?rows" by simp
  then have "r \<in> set ls" by (meson in_set_dropD in_set_takeD)
  with assms(4) have "strip r \<noteq> []" by simp
  then obtain x where x: "x \<in> set r" "\<not> isspace x" by (auto simp: strip_nonblank_iff)
  from x(1) set_hd_join [of r "[nl]" rs] have "x \<in> set (join [nl] ?rows)"
    by (auto simp: rows)
  then have "x \<in> set (table_chunk_at ls h start max_rows i)"
    by (simp add: table_chunk_at_def Let_def)
  with x(2) show ?thesis by (auto simp: strip_nonblank_iff)
qed

lemma chunk_table_content_nonblank:
  assumes "strip c \<noteq> []"
  shows "\<exists>ts. chunk_table_content c 10 = Inr ts \<and> ts \<noteq> [] \<and> (\<forall>t\<in>set ts. strip t \<noteq> [])"
proof (cases "int (length (non_empty_lines_of c)) \<le> 10")
  case True
  with assms show ?thesis by (simp add: chunk_table_content_def)
next
  case False
  let ?ne = "non_empty_lines_of c"
  obtain h start where ih: "identify_header ?ne = (h, start)" by (cases "identify_header ?ne")
  with identify_header_start [of ?ne] have st: "start \<le> 3" by simp
  let ?idxs = "range_list (int start) (int (length ?ne)) 10"
  from False ih have res: "chunk_table_content c 10 = Inr (map (table_chunk_at ?ne h start 10) ?idxs)"
    by (simp add: chunk_table_content_def py_range_def Let_def)
  from False st have "int start < int (length ?ne)" by simp
  then have ne: "?idxs \<noteq> []" by (simp add: range_list_nonempty)
  have "\<forall>i\<in>set ?idxs. strip (table_chunk_at ?ne h start 10 i) \<noteq> []"
  proof
    fix i assume "i \<in> set ?idxs"
    with range_list_mem [of 10 i "int start" "int (length ?ne)"]
    have "0 \<le> i" "nat i < length ?ne" by auto
    then show "strip (table_chunk_at ?ne h start 10 i) \<noteq> []"
      by (intro table_chunk_at_nonblank) (simp_all add: non_empty_lines_nonblank)
  qed
  with res ne show ?thesis by simp
qed

lemma map_enumerate_snd: "map (\<lambda>(k, t). g t) (enumerate 0 ts) = map g ts"
proof -
  have "map (\<lambda>(k, t). g t) (enumerate 0 ts) = map (g \<circ> snd) (enumerate 0 ts)"
    by (simp add: split_def comp_def)
  also have "\<dots> = map g (map snd (enumerate 0 ts))" by (simp only: map_map)
  also have "map snd (enumerate 0 ts) = ts" by (rule map_snd_enumerate)
  finally show ?thesis .
qed

lemma section_chunks_texts:
  "\<exists>cs. section_chunks doc now p j sec = Inr cs \<and> map chunk_text cs = section_texts sec"
proof -
  obtain d n path where doc: "doc = (d, n, path)" by (cases doc) auto
  show ?thesis
  proof (cases "is_tabular_section (section_content sec)")
    case True
    obtain ts where ts: "chunk_table_content (section_content sec) 10 = Inr ts"
      using chunk_table_content_default by blast
    show ?thesis
      using True map_enumerate_snd [of "\<lambda>t. t" ts]
      by (simp add: section_chunks_def doc ts section_texts_def comp_def split_def)
  next
    case False
    show ?thesis
      using False map_enumerate_snd [of "\<lambda>t. t" "chunk_text_content (section_content sec) 1000"]
      by (simp add: section_chunks_def doc section_texts_def comp_def split_def)
  qed
qed

lemma chunks_of_section_texts:
  "map chunk_text (chunks_of_section doc clock p j sec) = section_texts sec"
  using section_chunks_texts [of doc "clock p j" "p + 1" j sec]
  by (auto simp: chunks_of_section_def)

lemma section_texts_nonblank:
  assumes "strip (section_content sec) \<noteq> []"
    and "is_tabular_section (section_content sec) \<or> int (length (section_content sec)) \<le> 1000"
  shows "section_texts sec \<noteq> [] \<and> (\<forall>t\<in>set (section_texts sec). strip t \<noteq> [])"
proof (cases "is_tabular_section (section_content sec)")
  case True
  with chunk_table_content_nonblank [OF assms(1)] show ?thesis
    by (auto simp: section_texts_def)
next
  case False
  with assms show ?thesis by (simp add: section_texts_def chunk_text_content_def)
qed

lemma split_by_headers_empty:
  "split_by_headers [] = [\<lparr>section_title = ''Document Content'', section_content = []\<rparr>]"
  by code_simp

lemma chunk_document_empty_page:
  "\<exists>c. chunk_document doc clock [[]] = Inr [c] \<and> chunk_text c = []
       \<and> chunk_title c = ''Document Content'' \<and> chunk_type c = Text_chunk"
proof -
  obtain d n path where doc: "doc = (d, n, path)" by (cases doc) auto
  have nt: "\<not> is_tabular_section []"
    by (rule is_tabular_section_first_guard) simp
  have "chunk_text_content [] 1000 = [[]]" by (simp add: chunk_text_content_def)
  with nt show ?thesis
    by (simp add: chunk_document_def page_chunks_def split_by_headers_empty
          section_chunks_def doc)
qed

text \<open>
  Claim C1, amended. For every document, every chunk the Chunk Assembler emits for a
  section whose content is not blank, and which is tabular or at most 1000 characters
  long, has a text that is not empty after stripping; such a section gives at least one
  chunk. The fallback section \<open>Document Content\<close> holds the page text as it is, so a
  document of one empty page gives exactly one text chunk, whose text is empty.
\<close>

theorem nonblank_sections_give_nonblank_chunks:
  "(\<forall>p j. p < length documents \<and> j < length (split_by_headers (documents ! p))
       \<and> strip (section_content (split_by_headers (documents ! p) ! j)) \<noteq> []
       \<and> (is_tabular_section (section_content (split_by_headers (documents ! p) ! j))
          \<or> int (length (section_content (split_by_headers (documents ! p) ! j))) \<le> 1000)
      \<longrightarrow> (\<exists>chunks. chunk_document doc clock documents = Inr chunks
            \<and> (\<exists>c\<in>set chunks. page_number c = p + 1 \<and> section_index c = j)
            \<and> (\<forall>c\<in>set chunks. page_number c = p + 1 \<and> section_index c = j
                  \<longrightarrow> strip (chunk_text c) \<noteq> [])))
   \<and> (\<exists>c. chunk_document doc clock [[]] = Inr [c] \<and> chunk_text c = []
          \<and> chunk_title c = ''Document Content'' \<and> chunk_type c = Text_chunk)"
proof (rule conjI; (intro allI impI)?)
  fix p j
  let ?sec = "split_by_headers (documents ! p) ! j"
  let ?chunks = "concat (map (\<lambda>(p, page_text). chunks_of_page doc clock p page_text)
      (enumerate 0 documents))"
  let ?cs = "chunks_of_section doc clock p j ?sec"
  assume a: "p < length documents \<and> j < length (split_by_headers (documents ! p))
       \<and> strip (section_content ?sec) \<noteq> []
       \<and> (is_tabular_section (section_content ?sec) \<or> int (length (section_content ?sec)) \<le> 1000)"
  then have texts: "section_texts ?sec \<noteq> []" "\<forall>t\<in>set (section_texts ?sec). strip t \<noteq> []"
    using section_texts_nonblank [of ?sec] by simp_all
  have mt: "map chunk_text ?cs = section_texts ?sec" by (rule chunks_of_section_texts)
  with texts(1) have "?cs \<noteq> []" by auto
  then obtain c0 where c0: "c0 \<in> set ?cs" by (cases ?cs) auto
  from a c0 have in0: "c0 \<in> set ?chunks" unfolding chunk_in_document by blast
  from chunks_of_section_shape(2) [OF c0] have at0: "page_number c0 = p + 1 \<and> section_index c0 = j"
    by simp
  have all: "\<forall>c\<in>set ?chunks. page_number c = p + 1 \<and> section_index c = j
                  \<longrightarrow> strip (chunk_text c) \<noteq> []"
  proof (intro ballI impI)
    fix c assume c: "c \<in> set ?chunks" and at: "page_number c = p + 1 \<and> section_index c = j"
    from c obtain p' j' where
      c': "c \<in> set (chunks_of_section doc clock p' j' (split_by_headers (documents ! p') ! j'))"
      unfolding chunk_in_document by blast
    from chunks_of_section_shape(2) [OF c'] at have "p' = p" "j' = j" by simp_all
    with c' have "c \<in> set ?cs" by simp
    then have "chunk_text c \<in> set (map chunk_text ?cs)" by simp
    with mt texts(2) show "strip (chunk_text c) \<noteq> []" by simp
  qed
  from chunk_document_eq [of doc clock documents] in0 at0 all
  show "\<exists>chunks. chunk_document doc clock documents = Inr chunks
            \<and> (\<exists>c\<in>set chunks. page_number c = p + 1 \<and> section_index c = j)
            \<and> (\<forall>c\<in>set chunks. page_number c = p + 1 \<and> section_index c = j
                  \<longrightarrow> strip (chunk_text c) \<noteq> [])"
    by blast
next
  show "\<exists>c. chunk_document doc clock [[]] = Inr [c] \<and> chunk_text c = []
          \<and> chunk_title c = ''Document Content'' \<and> chunk_type c = Text_chunk"
    by (rule chunk_document_empty_page)
qed

theorem nonblank_sections_give_nonblank_chunks_witness:
  "0 < length [title_hello, seven_lines]
   \<and> 0 < length (split_by_headers ([title_hello, seven_lines] ! 0))
   \<and> strip (section_content (split_by_headers ([title_hello, seven_lines] ! 0) ! 0)) \<noteq> []
   \<and> int (length (section_content (split_by_headers ([title_hello, seven_lines] ! 0) ! 0))) \<le> 1000
   \<and> (\<exists>chunks c. chunk_document (''doc'', ''name'', ''path'') epoch_clock [title_hello, seven_lines]
          = Inr chunks \<and> c \<in> set chunks \<and> page_number c = 1 \<and> section_index c = 0
        \<and> strip (chunk_text c) \<noteq> [])"
proof -
  let ?docs = "[title_hello, seven_lines]"
  let ?sec = "split_by_headers (?docs ! 0) ! 0"
  have sec: "split_by_headers (?docs ! 0)
      = [\<lparr>section_title = ''Title'', section_content = ''Hello'' @ [nl]\<rparr>]"
    by code_simp
  have h1: "0 < length ?docs" by simp
  have h2: "0 < length (split_by_headers (?docs ! 0))" by (simp only: sec) simp
  have h3: "strip (section_content ?sec) \<noteq> []" by (simp only: sec) code_simp
  have h4: "int (length (section_content ?sec)) \<le> 1000" by (simp only: sec) simp
  from nonblank_sections_give_nonblank_chunks [of ?docs "(''doc'', ''name'', ''path'')" epoch_clock]
    h1 h2 h3 h4
  obtain chunks where c: "chunk_document (''doc'', ''name'', ''path'') epoch_clock ?docs = Inr chunks"
    and ex: "\<exists>c\<in>set chunks. page_number c = 0 + 1 \<and> section_index c = 0"
    and all: "\<forall>c\<in>set chunks. page_number c = 0 + 1 \<and> section_index c = 0
                \<longrightarrow> strip (chunk_text c) \<noteq> []"
    by blast
  from ex obtain c where "c \<in> set chunks" "page_number c = 1" "section_index c = 0" by auto
  with all have "strip (chunk_text c) \<noteq> []" by simp
  with c \<open>c \<in> set chunks\<close> \<open>page_number c = 1\<close> \<open>section_index c = 0\<close> h1 h2 h3 h4
  show ?thesis by blast
qed

text \<open>
  Claim C1, as stated, fails. A document of one empty page does not give zero chunks:
  it gives one chunk, of the fallback section, with the empty text.
\<close>

theorem chunk_document_empty_page_counterexample:
  "chunk_document (''doc'', ''name'', ''path'') epoch_clock [[]]
     = Inr [\<lparr>document_id = ''doc'', document_name = ''name'', file_path = ''path'',
             chunk_title = ''Document Content'', page_number = 1, section_index = 0,
             chunk_id = ''doc_p1_s0_c0'', created_at = 0, chunk_text = [],
             chunk_type = Text_chunk,
             structure_info = Text_structure
               \<lparr>paragraph_count = 0, sentence_count = 0, word_count = 0\<rparr>\<rparr>]
   \<and> strip [] = []"
  by code_simp

end
